theory Spec2Isabelle
  imports Main
begin

section \<open>The voice assistant: request queue, audio cache and playback\<close>

text \<open>
  A shallow embedding of \<^verbatim>\<open>VoiceProvider\<close> (the voice context of the front end):
  \<^verbatim>\<open>safeStopAudio\<close>, \<^verbatim>\<open>handlePlaybackStatus\<close>, \<^verbatim>\<open>processQueue\<close>,
  \<^verbatim>\<open>playStoredAudio\<close>, \<^verbatim>\<open>performSpeak\<close> and \<^verbatim>\<open>speakText\<close>.

  The refs of the component (\<^verbatim>\<open>soundRef\<close>, \<^verbatim>\<open>retryCountRef\<close>, \<^verbatim>\<open>requestQueueRef\<close>,
  \<^verbatim>\<open>processingQueueRef\<close>, \<^verbatim>\<open>lastApiCallTimestampRef\<close>) and the module-level
  \<^verbatim>\<open>audioCache\<close> are the fields of one state record, passed explicitly. What the code
  reads from outside (the mute flag, connectivity, the answer of the speech backend, whether
  the audio subsystem manages to create a sound, the clock, \<^verbatim>\<open>Math.random\<close>, the bundled
  audio table of \<^verbatim>\<open>AudioStorage\<close>) is an environment record given to every operation.
  Every operation is one atomic step: the code runs on a single cooperative drain loop, and
  the interleaving of its \<^verbatim>\<open>await\<close> points is not modelled.

  \<^verbatim>\<open>isOnline\<close> and \<^verbatim>\<open>isMuted\<close> are constants of one render of the component, and every
  function is a closure over the values of its render. A call of \<^verbatim>\<open>speakText\<close> reads the
  values of the render it comes from; a callback of \<^verbatim>\<open>setTimeout\<close> runs the
  \<^verbatim>\<open>processQueue\<close> and \<^verbatim>\<open>performSpeak\<close> of the render that set the timer, so it reads the
  values of that render, whatever connectivity and the mute flag are when it fires. A
  pending timer therefore carries the two values its callback will read.

  A string is a list of characters, one \<open>char\<close> for each UTF-16 code unit the JavaScript
  \<^verbatim>\<open>length\<close> and \<^verbatim>\<open>substring\<close> count.
\<close>

subsection \<open>Data\<close>

type_synonym handle = nat

text \<open>\<^verbatim>\<open>{ text, languageCode, route }\<close>; a \<^verbatim>\<open>null\<close> route is \<open>None\<close>.\<close>

record request =
  text' :: string
  languageCode :: string
  route :: "string option"

text \<open>An argument as a caller may pass it to \<^verbatim>\<open>speakText\<close>.\<close>

datatype jsval = JString string | JNull | JUndefined | JOther

text \<open>
  The outcome of the POST to the speech backend: a response whose
  \<^verbatim>\<open>data.audio?.[0]?.audioContent\<close> is present or not, an error that carries an HTTP status
  (\<^verbatim>\<open>error.response.status\<close>), or an error without a response (timeout, no network).
\<close>

datatype response = Success "string option" | HttpError nat | NetworkFailure

text \<open>
  The \<^verbatim>\<open>isOnline\<close> and \<^verbatim>\<open>isMuted\<close> of a render, as a closure created in it sees them.
\<close>

type_synonym closure = "bool \<times> bool"

datatype timerKind = DrainTimer closure | RetryTimer closure request | CooldownTimer

datatype event =
    StopAsync handle
  | UnloadAsync handle
  | CreateAsync string "handle option"
  | NetworkCall string string string

record env =
  isReady :: bool
  isOnline :: bool
  isMuted :: bool
  getAudioForRoute :: "string \<Rightarrow> string \<Rightarrow> string option"
  storedPlaybackOk :: bool
  playbackOk :: bool
  response :: response
  now :: nat
  jitter :: nat

text \<open>
  \<open>getAudioForRoute\<close> is imported from \<^verbatim>\<open>./AudioStorage\<close>, which is a parameter here: it
  gives the bundled base64 audio of a route and a base language, or nothing.
  \<open>storedPlaybackOk\<close> and \<open>playbackOk\<close> say whether \<^verbatim>\<open>Audio.Sound.createAsync\<close> resolves,
  in \<^verbatim>\<open>playStoredAudio\<close> and in the body of \<^verbatim>\<open>performSpeak\<close>. \<open>jitter\<close> is the whole
  number of milliseconds of \<^verbatim>\<open>Math.random() * 500\<close>.

  \<open>playing\<close>, \<open>peakPlaying\<close>, \<open>nextHandle\<close> and \<open>events\<close> describe the audio subsystem and
  the network as the code drives them: the sounds created with \<^verbatim>\<open>shouldPlay: true\<close> and
  neither stopped, unloaded nor finished, the largest number of them there has been at once,
  the next fresh handle, and the calls made so far. \<open>timers\<close> are the pending
  \<^verbatim>\<open>setTimeout\<close> callbacks with their delay in milliseconds.
\<close>

definition closureOf :: "env \<Rightarrow> closure" where
  "closureOf e = (isOnline e, isMuted e)"

text \<open>The environment as a callback created with the values \<open>c\<close> reads it.\<close>

definition withClosure :: "closure \<Rightarrow> env \<Rightarrow> env" where
  "withClosure c e = e\<lparr>isOnline := fst c, isMuted := snd c\<rparr>"

record state =
  soundRef :: "handle option"
  audioCache :: "(string \<times> string) list"
  retryCount :: nat
  requestQueue :: "request list"
  processingQueue :: bool
  lastApiCallTimestamp :: nat
  timers :: "(nat \<times> timerKind) list"
  playing :: "handle list"
  peakPlaying :: nat
  nextHandle :: handle
  events :: "event list"

definition initState :: state where
  "initState = \<lparr>soundRef = None, audioCache = [], retryCount = 0, requestQueue = [],
     processingQueue = False, lastApiCallTimestamp = 0, timers = [], playing = [],
     peakPlaying = 0, nextHandle = 0, events = []\<rparr>"

definition LOCAL_AUDIO_LANGUAGES :: "string list" where
  "LOCAL_AUDIO_LANGUAGES = [''en'', ''hi'', ''kn'']"

definition INDO_ARYAN_LANGUAGES :: "string list" where
  "INDO_ARYAN_LANGUAGES = [''bn'', ''pa'', ''mr'', ''gu'', ''hi'']"

definition DRAVIDIAN_LANGUAGES :: "string list" where
  "DRAVIDIAN_LANGUAGES = [''te'', ''ta'', ''kn'']"

subsection \<open>The audio cache: a JavaScript Map, in insertion order\<close>

definition cacheHas :: "string \<Rightarrow> (string \<times> string) list \<Rightarrow> bool" where
  "cacheHas k c = (k \<in> set (map fst c))"

text \<open>\<^verbatim>\<open>Map.set\<close>: a new key goes last, a key already there keeps its place.\<close>

definition cacheSet :: "string \<Rightarrow> string \<Rightarrow> (string \<times> string) list \<Rightarrow> (string \<times> string) list" where
  "cacheSet k v c =
     (if cacheHas k c then map (\<lambda>(k', v'). if k' = k then (k', v) else (k', v')) c
      else c @ [(k, v)])"

definition cacheDelete :: "string \<Rightarrow> (string \<times> string) list \<Rightarrow> (string \<times> string) list" where
  "cacheDelete k c = filter (\<lambda>(k', v'). k' \<noteq> k) c"

text \<open>
  \<^verbatim>\<open>audioCache.set(cacheKey, audioUri); if (audioCache.size > 50) { delete the first key }\<close>
\<close>

definition cachePut :: "string \<Rightarrow> string \<Rightarrow> (string \<times> string) list \<Rightarrow> (string \<times> string) list" where
  "cachePut k v c =
     (let c' = cacheSet k v c
      in if length c' > 50
         then (case c' of [] \<Rightarrow> c' | (oldestKey, u) # rest \<Rightarrow> cacheDelete oldestKey c')
         else c')"

definition cacheKey :: "string \<Rightarrow> string \<Rightarrow> string" where
  "cacheKey t l = t @ ''_'' @ l"

subsection \<open>Playback\<close>

definition safeStopAudio :: "state \<Rightarrow> state" where
  "safeStopAudio s =
     (case soundRef s of
        None \<Rightarrow> s
      | Some h \<Rightarrow> s\<lparr>soundRef := None, playing := removeAll h (playing s),
                    events := events s @ [StopAsync h, UnloadAsync h]\<rparr>)"

definition stopAudio :: "state \<Rightarrow> state" where
  "stopAudio s = safeStopAudio s"

text \<open>
  \<^verbatim>\<open>handlePlaybackStatus\<close> with \<^verbatim>\<open>didJustFinish\<close>, for the sound \<open>h\<close> that has just
  played to its end: the callback unloads whatever \<^verbatim>\<open>soundRef\<close> holds.
\<close>

definition handlePlaybackStatus :: "handle \<Rightarrow> state \<Rightarrow> state" where
  "handlePlaybackStatus h s =
     (if h \<in> set (playing s) then
        (let s1 = s\<lparr>playing := removeAll h (playing s)\<rparr>
         in case soundRef s1 of
              None \<Rightarrow> s1
            | Some c \<Rightarrow> s1\<lparr>soundRef := None, playing := removeAll c (playing s1),
                          events := events s1 @ [UnloadAsync c]\<rparr>)
      else s)"

text \<open>\<^verbatim>\<open>Audio.Sound.createAsync({ uri }, { shouldPlay: true }, handlePlaybackStatus)\<close>\<close>

definition createAsync :: "bool \<Rightarrow> string \<Rightarrow> state \<Rightarrow> handle option \<times> state" where
  "createAsync ok uri s =
     (if ok then
        (let h = nextHandle s; p = playing s @ [h]
         in (Some h, s\<lparr>playing := p, peakPlaying := max (peakPlaying s) (length p),
                        nextHandle := Suc h, events := events s @ [CreateAsync uri (Some h)]\<rparr>))
      else (None, s\<lparr>events := events s @ [CreateAsync uri None]\<rparr>))"

definition playStoredAudio :: "env \<Rightarrow> string \<Rightarrow> state \<Rightarrow> bool \<times> state" where
  "playStoredAudio e audioBase64 s =
     (if audioBase64 = [] then (False, s)
      else
        (let s1 = safeStopAudio s;
             audioUri = ''data:audio/wav;base64,'' @ audioBase64
         in case createAsync (storedPlaybackOk e) audioUri s1 of
              (Some sound, s2) \<Rightarrow> (True, s2\<lparr>soundRef := Some sound\<rparr>)
            | (None, s2) \<Rightarrow> (False, s2)))"

subsection \<open>One request\<close>

text \<open>\<^verbatim>\<open>languageCode.split("-")[0] || "en"\<close>\<close>

definition baseLanguageOf :: "string \<Rightarrow> string" where
  "baseLanguageOf l =
     (let b = takeWhile (\<lambda>c. c \<noteq> CHR ''-'') l in if b = [] then ''en'' else b)"

text \<open>
  \<^verbatim>\<open>LOCAL_AUDIO_LANGUAGES.includes(baseLanguage) && route\<close>, then
  \<^verbatim>\<open>getAudioForRoute(route, baseLanguage)\<close> if it is truthy.
\<close>

definition storedAudioFor :: "env \<Rightarrow> request \<Rightarrow> string option" where
  "storedAudioFor e r =
     (let baseLanguage = baseLanguageOf (languageCode r)
      in case route r of
           None \<Rightarrow> None
         | Some rt \<Rightarrow>
             if baseLanguage \<in> set LOCAL_AUDIO_LANGUAGES \<and> rt \<noteq> [] then
               (case getAudioForRoute e rt baseLanguage of
                  None \<Rightarrow> None
                | Some a \<Rightarrow> if a = [] then None else Some a)
             else None)"

definition serviceIdOf :: "string \<Rightarrow> string" where
  "serviceIdOf sourceLanguage =
     (if sourceLanguage \<in> set DRAVIDIAN_LANGUAGES then ''ai4bharat/indic-tts-dravidian--gpu-t4''
      else if sourceLanguage \<in> set INDO_ARYAN_LANGUAGES then ''ai4bharat/indic-tts-indo-aryan--gpu-t4''
      else ''ai4bharat/indic-tts-indo-aryan--gpu-t4'')"

text \<open>
  The \<^verbatim>\<open>catch\<close> block of \<^verbatim>\<open>performSpeak\<close>; \<open>status\<close> is \<^verbatim>\<open>error.response?.status\<close>.
\<close>

definition catchError :: "env \<Rightarrow> request \<Rightarrow> nat option \<Rightarrow> state \<Rightarrow> state" where
  "catchError e r status s =
     (let s1 = s\<lparr>retryCount := Suc (retryCount s)\<rparr>
      in if status = Some 429 then
           s1\<lparr>timers := timers s1 @ [(5000 + jitter e, RetryTimer (closureOf e) r)]\<rparr>
         else if status = Some 401 then
           (if retryCount s1 > 3
            then s1\<lparr>timers := timers s1 @ [(5 * 60 * 1000, CooldownTimer)]\<rparr>
            else s1)
         else s1)"

text \<open>
  The part of \<^verbatim>\<open>performSpeak\<close> from the network call on. The random request identifiers
  and headers are left out: they change nothing the code reads back.
\<close>

definition synthesize :: "env \<Rightarrow> request \<Rightarrow> state \<Rightarrow> state" where
  "synthesize e r s =
     (let sourceLanguage = baseLanguageOf (languageCode r);
          s1 = s\<lparr>lastApiCallTimestamp := now e,
                 events := events s @ [NetworkCall sourceLanguage (text' r) (serviceIdOf sourceLanguage)]\<rparr>
      in case response e of
           HttpError code \<Rightarrow> catchError e r (Some code) s1
         | NetworkFailure \<Rightarrow> catchError e r None s1
         | Success content \<Rightarrow>
             if isMuted e then s1
             else
               (case content of
                  None \<Rightarrow> catchError e r None s1
                | Some audioContent \<Rightarrow>
                    if audioContent = [] then catchError e r None s1
                    else
                      (let audioUri = ''data:audio/wav;base64,'' @ audioContent;
                           s2 = s1\<lparr>audioCache :=
                                  cachePut (cacheKey (text' r) (languageCode r)) audioUri (audioCache s1)\<rparr>
                       in case createAsync (playbackOk e) audioUri s2 of
                            (Some sound, s3) \<Rightarrow> s3\<lparr>soundRef := Some sound, retryCount := 0\<rparr>
                          | (None, s3) \<Rightarrow> catchError e r None s3)))"

text \<open>
  The part of \<^verbatim>\<open>performSpeak\<close> from \<^verbatim>\<open>// Check cache first\<close> on;
  \<^verbatim>\<open>audioCache.has\<close> and \<^verbatim>\<open>audioCache.get\<close> are the one lookup \<open>map_of\<close>.
\<close>

definition cacheOrSynthesize :: "env \<Rightarrow> request \<Rightarrow> state \<Rightarrow> state" where
  "cacheOrSynthesize e r s =
     (case map_of (audioCache s) (cacheKey (text' r) (languageCode r)) of
        Some cachedAudioUri \<Rightarrow>
          (case createAsync (playbackOk e) cachedAudioUri s of
             (Some sound, s1) \<Rightarrow> s1\<lparr>soundRef := Some sound\<rparr>
           | (None, s1) \<Rightarrow> catchError e r None s1)
      | None \<Rightarrow> synthesize e r s)"

definition performSpeak :: "env \<Rightarrow> request \<Rightarrow> state \<Rightarrow> state" where
  "performSpeak e r s =
     (if \<not> isOnline e then
        (case storedAudioFor e r of
           Some storedAudio \<Rightarrow> snd (playStoredAudio e storedAudio s)
         | None \<Rightarrow> s)
      else
        (let s1 = safeStopAudio s
         in case storedAudioFor e r of
              Some storedAudio \<Rightarrow>
                (case playStoredAudio e storedAudio s1 of
                   (True, s2) \<Rightarrow> s2
                 | (False, s2) \<Rightarrow> cacheOrSynthesize e r s2)
            | None \<Rightarrow> cacheOrSynthesize e r s1))"

subsection \<open>The queue\<close>

text \<open>
  One round of \<^verbatim>\<open>processQueue\<close>: the wait that keeps a second between two calls of the
  backend changes no state and is left out; the next round is the timer of 500 ms.
\<close>

definition processQueue :: "env \<Rightarrow> state \<Rightarrow> state" where
  "processQueue e s =
     (case requestQueue s of
        [] \<Rightarrow> s\<lparr>processingQueue := False\<rparr>
      | request # rest \<Rightarrow>
          (let s1 = s\<lparr>processingQueue := True, requestQueue := rest\<rparr>;
               s2 = performSpeak e request s1
           in s2\<lparr>timers := timers s2 @ [(500, DrainTimer (closureOf e))]\<rparr>))"

definition speakText :: "env \<Rightarrow> string \<Rightarrow> jsval \<Rightarrow> jsval \<Rightarrow> state \<Rightarrow> state" where
  "speakText e text languageCodeArg routeArg s =
     (if \<not> isReady e \<or> text = [] \<or> isMuted e then s
      else
        (let route1 = (case routeArg of JString rt \<Rightarrow> Some rt | _ \<Rightarrow> None);
             text1 = (if length text > 300 then take 300 text @ ''...'' else text);
             languageCode1 = (case languageCodeArg of
                                JString l \<Rightarrow> if l = [] then ''en'' else l
                              | _ \<Rightarrow> ''en'');
             s1 = s\<lparr>requestQueue := requestQueue s @
                    [\<lparr>text' = text1, languageCode = languageCode1, route = route1\<rparr>]\<rparr>
         in if \<not> processingQueue s1 then processQueue e s1 else s1))"

text \<open>
  A pending timer fires: the callbacks of the three \<^verbatim>\<open>setTimeout\<close> calls. \<open>e\<close> is the
  environment at that moment; the callback reads connectivity and the mute flag from its
  closure.
\<close>

definition fireTimer :: "env \<Rightarrow> timerKind \<Rightarrow> state \<Rightarrow> state" where
  "fireTimer e k s =
     (case k of
        DrainTimer c \<Rightarrow> processQueue (withClosure c e) s
      | RetryTimer c r \<Rightarrow>
          if length (requestQueue s) < 5 then
            (let s1 = s\<lparr>requestQueue := requestQueue s @ [r]\<rparr>
             in if \<not> processingQueue s1 then processQueue (withClosure c e) s1 else s1)
          else s
      | CooldownTimer \<Rightarrow> s\<lparr>retryCount := 0\<rparr>)"

text \<open>
  What can happen to the component: a call of \<^verbatim>\<open>speakText\<close> or \<^verbatim>\<open>stopAudio\<close>, the
  \<open>i\<close>-th pending timer firing, the sound \<open>h\<close> playing to its end.
\<close>

datatype op = SpeakText string jsval jsval | StopAudio | FireTimer nat | PlaybackFinished handle

definition step :: "env \<Rightarrow> op \<Rightarrow> state \<Rightarrow> state" where
  "step e o1 s =
     (case o1 of
        SpeakText t l rt \<Rightarrow> speakText e t l rt s
      | StopAudio \<Rightarrow> stopAudio s
      | FireTimer i \<Rightarrow>
          (if i < length (timers s)
           then fireTimer e (snd (timers s ! i)) (s\<lparr>timers := take i (timers s) @ drop (Suc i) (timers s)\<rparr>)
           else s)
      | PlaybackFinished h \<Rightarrow> handlePlaybackStatus h s)"

fun run :: "(env \<times> op) list \<Rightarrow> state \<Rightarrow> state" where
  "run [] s = s"
| "run ((e, o1) # rest) s = run rest (step e o1 s)"

subsection \<open>Observations and invariants\<close>

text \<open>The \<^verbatim>\<open>input\<close> of every call of the speech backend made so far, oldest first.\<close>

fun networkInputs :: "event list \<Rightarrow> string list" where
  "networkInputs [] = []"
| "networkInputs (NetworkCall l i sid # evs) = i # networkInputs evs"
| "networkInputs (ev # evs) = networkInputs evs"

text \<open>The cache within its capacity, no key twice.\<close>

definition cacheInv :: "state \<Rightarrow> bool" where
  "cacheInv s = (length (audioCache s) \<le> 50 \<and> distinct (map fst (audioCache s)))"

text \<open>
  The sound \<^verbatim>\<open>soundRef\<close> holds is the only one playing and the one created last, and there
  have never been two at once; \<open>quiet\<close> is the state right after \<^verbatim>\<open>safeStopAudio\<close>.
\<close>

definition playbackInv :: "state \<Rightarrow> bool" where
  "playbackInv s =
     (playing s = (case soundRef s of None \<Rightarrow> [] | Some h \<Rightarrow> [h]) \<and> peakPlaying s \<le> 1 \<and>
      (case soundRef s of None \<Rightarrow> True | Some h \<Rightarrow> Suc h = nextHandle s))"

definition quiet :: "state \<Rightarrow> bool" where
  "quiet s = (soundRef s = None \<and> playing s = [] \<and> peakPlaying s \<le> 1)"

subsection \<open>Example inputs\<close>

text \<open>
  A bundled asset for the route \<^verbatim>\<open>home\<close> in Hindi and nothing else; an environment in
  which everything works (online, unmuted, the backend answers with audio, sounds can be
  created) and its variants; a cache that is full.
\<close>

definition exampleStorage :: "string \<Rightarrow> string \<Rightarrow> string option" where
  "exampleStorage rt l = (if rt = ''home'' \<and> l = ''hi'' then Some ''QUJD'' else None)"

definition envOnline :: env where
  "envOnline = \<lparr>isReady = True, isOnline = True, isMuted = False,
     getAudioForRoute = (\<lambda>rt l. None), storedPlaybackOk = True, playbackOk = True,
     response = Success (Some ''UklGRg''), now = 2000, jitter = 250\<rparr>"

definition envOffline :: env where
  "envOffline = envOnline\<lparr>isOnline := False, getAudioForRoute := exampleStorage\<rparr>"

definition envRateLimited :: env where
  "envRateLimited = envOnline\<lparr>response := HttpError 429\<rparr>"

definition envNetworkFailure :: env where
  "envNetworkFailure = envOnline\<lparr>response := NetworkFailure\<rparr>"

definition envNoAudioContent :: env where
  "envNoAudioContent = envOnline\<lparr>response := Success None\<rparr>"

definition envAuthFailure :: env where
  "envAuthFailure = envOnline\<lparr>response := HttpError 401\<rparr>"

definition envOfflineNow :: env where
  "envOfflineNow = envOffline\<lparr>response := NetworkFailure\<rparr>"

definition envMuted :: env where
  "envMuted = envOnline\<lparr>isMuted := True\<rparr>"

definition envMutedOffline :: env where
  "envMutedOffline = envOffline\<lparr>isMuted := True\<rparr>"

definition requestHello :: request where
  "requestHello = \<lparr>text' = ''Hello'', languageCode = ''en'', route = None\<rparr>"

definition requestHome :: request where
  "requestHome = \<lparr>text' = ''Hi'', languageCode = ''hi-IN'', route = Some ''home''\<rparr>"

definition fullCache :: "(string \<times> string) list" where
  "fullCache = map (\<lambda>n. (replicate (Suc n) (CHR ''k''), ''data:audio/wav;base64,AAAA'')) [0..<50]"

text \<open>
  Histories of the component. Two requests in a row, the second waiting for the drain
  timer. Four requests that each fail with status 401, the queue going idle after each (the
  last timer fired is the second pending one, the first being the cooldown). Four requests
  that fail without a response, without audio content, with status 429 and with status 401
  (after the third, the drain timer is the second pending one, the first being the retry).
  A request made twice, and two different requests, the second one processed after the user
  has muted. The same two pairs, the second request processed after connectivity is lost: the
  component then has \<^verbatim>\<open>isOnline\<close> false and the backend cannot be reached.
\<close>

definition opsTwoRequests :: "(env \<times> op) list" where
  "opsTwoRequests =
     [(envOnline, SpeakText ''one'' JUndefined JNull),
      (envOnline, SpeakText ''two'' JUndefined JNull),
      (envOnline, FireTimer 0)]"

definition opsAuthFailures :: "(env \<times> op) list" where
  "opsAuthFailures =
     [(envAuthFailure, SpeakText ''one'' JUndefined JNull), (envAuthFailure, FireTimer 0),
      (envAuthFailure, SpeakText ''two'' JUndefined JNull), (envAuthFailure, FireTimer 0),
      (envAuthFailure, SpeakText ''three'' JUndefined JNull), (envAuthFailure, FireTimer 0),
      (envAuthFailure, SpeakText ''four'' JUndefined JNull), (envAuthFailure, FireTimer 1)]"

definition opsMutedFresh :: "(env \<times> op) list" where
  "opsMutedFresh =
     [(envOnline, SpeakText ''one'' JUndefined JNull),
      (envOnline, SpeakText ''two'' JUndefined JNull),
      (envMuted, FireTimer 0)]"

definition opsMixedFailures :: "(env \<times> op) list" where
  "opsMixedFailures =
     [(envNetworkFailure, SpeakText ''one'' JUndefined JNull), (envNetworkFailure, FireTimer 0),
      (envNoAudioContent, SpeakText ''two'' JUndefined JNull), (envNoAudioContent, FireTimer 0),
      (envRateLimited, SpeakText ''three'' JUndefined JNull), (envRateLimited, FireTimer 1),
      (envAuthFailure, SpeakText ''four'' JUndefined JNull)]"

definition opsWentOffline :: "(env \<times> op) list" where
  "opsWentOffline =
     [(envOnline, SpeakText ''one'' JUndefined JNull),
      (envOnline, SpeakText ''two'' JUndefined JNull),
      (envOfflineNow, FireTimer 0)]"

definition opsWentOfflineHit :: "(env \<times> op) list" where
  "opsWentOfflineHit =
     [(envOnline, SpeakText ''one'' JUndefined JNull),
      (envOnline, SpeakText ''one'' JUndefined JNull),
      (envOfflineNow, FireTimer 0)]"

definition opsMutedCacheHit :: "(env \<times> op) list" where
  "opsMutedCacheHit =
     [(envOnline, SpeakText ''Hello'' JUndefined JNull),
      (envOnline, SpeakText ''Hello'' JUndefined JNull),
      (envMuted, FireTimer 0)]"

section \<open>Properties\<close>

subsection \<open>Running the code on an input\<close>

lemmas run_defs = step_def speakText_def processQueue_def fireTimer_def performSpeak_def
  safeStopAudio_def playStoredAudio_def createAsync_def storedAudioFor_def
  cacheOrSynthesize_def synthesize_def catchError_def cachePut_def cacheSet_def cacheDelete_def
  cacheHas_def cacheKey_def baseLanguageOf_def serviceIdOf_def LOCAL_AUDIO_LANGUAGES_def
  DRAVIDIAN_LANGUAGES_def INDO_ARYAN_LANGUAGES_def closureOf_def withClosure_def Let_def

subsection \<open>What each function leaves alone\<close>

lemma networkInputs_append [simp]:
  "networkInputs (xs @ ys) = networkInputs xs @ networkInputs ys"
  by (induction xs rule: networkInputs.induct) simp_all

lemma cacheHas_map_of: "cacheHas k c \<longleftrightarrow> map_of c k \<noteq> None"
  by (simp add: cacheHas_def map_of_eq_None_iff)

lemma safeStopAudio_networkInputs [simp]:
  "networkInputs (events (safeStopAudio s)) = networkInputs (events s)"
  by (simp add: safeStopAudio_def split: option.splits)

lemma safeStopAudio_fields [simp]:
  "audioCache (safeStopAudio s) = audioCache s"
  "retryCount (safeStopAudio s) = retryCount s"
  "requestQueue (safeStopAudio s) = requestQueue s"
  "timers (safeStopAudio s) = timers s"
  "nextHandle (safeStopAudio s) = nextHandle s"
  "soundRef (safeStopAudio s) = None"
  by (simp_all add: safeStopAudio_def split: option.splits)

lemma createAsync_fields [simp]:
  "audioCache (snd (createAsync ok uri s)) = audioCache s"
  "retryCount (snd (createAsync ok uri s)) = retryCount s"
  "requestQueue (snd (createAsync ok uri s)) = requestQueue s"
  "timers (snd (createAsync ok uri s)) = timers s"
  "networkInputs (events (snd (createAsync ok uri s))) = networkInputs (events s)"
  "fst (createAsync ok uri s) = (if ok then Some (nextHandle s) else None)"
  by (simp_all add: createAsync_def Let_def)

lemma playStoredAudio_fields [simp]:
  "audioCache (snd (playStoredAudio e a s)) = audioCache s"
  "retryCount (snd (playStoredAudio e a s)) = retryCount s"
  "requestQueue (snd (playStoredAudio e a s)) = requestQueue s"
  "timers (snd (playStoredAudio e a s)) = timers s"
  "networkInputs (events (snd (playStoredAudio e a s))) = networkInputs (events s)"
  "fst (playStoredAudio e a s) = (a \<noteq> [] \<and> storedPlaybackOk e)"
  by (simp_all add: playStoredAudio_def createAsync_def Let_def split: prod.splits option.splits)

lemma catchError_fields [simp]:
  "audioCache (catchError e r st s) = audioCache s"
  "retryCount (catchError e r st s) = Suc (retryCount s)"
  "requestQueue (catchError e r st s) = requestQueue s"
  "networkInputs (events (catchError e r st s)) = networkInputs (events s)"
  by (simp_all add: catchError_def Let_def)

lemma storedAudioFor_nonempty: "storedAudioFor e r = Some a \<Longrightarrow> a \<noteq> []"
  by (auto simp: storedAudioFor_def Let_def split: option.splits if_splits)

lemma synthesize_networkInputs:
  "networkInputs (events (synthesize e r s)) = networkInputs (events s) @ [text' r]"
  by (simp add: synthesize_def Let_def split: response.splits option.splits prod.splits)
     (auto simp: createAsync_def Let_def catchError_def)

lemma cacheOrSynthesize_networkInputs:
  "networkInputs (events (cacheOrSynthesize e r s)) =
     networkInputs (events s) @
       (if cacheHas (cacheKey (text' r) (languageCode r)) (audioCache s) then [] else [text' r])"
  by (auto simp: cacheOrSynthesize_def cacheHas_map_of synthesize_networkInputs createAsync_def Let_def
           split: option.splits prod.splits)

lemma performSpeak_networkInputs:
  "networkInputs (events (performSpeak e r s)) =
     networkInputs (events s) @
       (if isOnline e \<and> (storedAudioFor e r = None \<or> \<not> storedPlaybackOk e) \<and>
           \<not> cacheHas (cacheKey (text' r) (languageCode r)) (audioCache s)
        then [text' r] else [])"
proof (cases "isOnline e")
  case False
  then show ?thesis
    by (simp add: performSpeak_def split: option.splits)
next
  case True
  show ?thesis
  proof (cases "storedAudioFor e r")
    case None
    with True show ?thesis
      by (simp add: performSpeak_def Let_def cacheOrSynthesize_networkInputs)
  next
    case (Some a)
    then have ne: "a \<noteq> []" by (rule storedAudioFor_nonempty)
    obtain b s2 where p: "playStoredAudio e a (safeStopAudio s) = (b, s2)"
      by (cases "playStoredAudio e a (safeStopAudio s)")
    have b: "b = storedPlaybackOk e"
      using playStoredAudio_fields(6) [of e a "safeStopAudio s"] p ne by simp
    have c: "audioCache s2 = audioCache s"
      using playStoredAudio_fields(1) [of e a "safeStopAudio s"] p by simp
    have n: "networkInputs (events s2) = networkInputs (events s)"
      using playStoredAudio_fields(5) [of e a "safeStopAudio s"] p by simp
    show ?thesis
      using True Some p b c n
      by (cases "storedPlaybackOk e")
         (simp_all add: performSpeak_def Let_def cacheOrSynthesize_networkInputs)
  qed
qed


subsection \<open>Cache hits, offline requests\<close>

text \<open>
  Claim C7. When the cache has the key \<^verbatim>\<open>${text}_${languageCode}\<close> of the request that is
  processed, \<^verbatim>\<open>performSpeak\<close> makes no call of the speech backend.
\<close>

theorem cache_hit_no_network_call:
  assumes "cacheHas (cacheKey (text' r) (languageCode r)) (audioCache s)"
  shows "networkInputs (events (performSpeak e r s)) = networkInputs (events s)"
  using assms by (simp add: performSpeak_networkInputs)

theorem cache_hit_no_network_call_witness:
  "cacheHas (cacheKey ''Hi'' ''hi-IN'') [(''Hi_hi-IN'', ''data:audio/wav;base64,UklGRg'')] \<and>
   networkInputs (events (performSpeak envOnline
      \<lparr>text' = ''Hi'', languageCode = ''hi-IN'', route = None\<rparr>
      (initState\<lparr>audioCache := [(''Hi_hi-IN'', ''data:audio/wav;base64,UklGRg'')]\<rparr>))) = []"
  using cache_hit_no_network_call [of "\<lparr>text' = ''Hi'', languageCode = ''hi-IN'', route = None\<rparr>"
      "initState\<lparr>audioCache := [(''Hi_hi-IN'', ''data:audio/wav;base64,UklGRg'')]\<rparr>" envOnline]
  by (simp add: cacheHas_def cacheKey_def initState_def)

lemma performSpeak_offline:
  "\<not> isOnline e \<Longrightarrow> performSpeak e r s =
     (case storedAudioFor e r of Some a \<Rightarrow> snd (playStoredAudio e a s) | None \<Rightarrow> s)"
  by (simp add: performSpeak_def)

lemma playStoredAudio_audioCache_update:
  "snd (playStoredAudio e a (s\<lparr>audioCache := c\<rparr>)) = (snd (playStoredAudio e a s))\<lparr>audioCache := c\<rparr>"
  by (simp add: playStoredAudio_def safeStopAudio_def createAsync_def Let_def
           split: option.splits prod.splits)

text \<open>
  A request processed by a closure whose \<^verbatim>\<open>isOnline\<close> is false: no call of the speech
  backend, a result that does not depend on the cache, and no change at all when the base
  language is none of en, hi, kn, the route is null or the route has no bundled asset.
\<close>

lemma performSpeak_offline_closure:
  assumes "\<not> isOnline e"
  shows "networkInputs (events (performSpeak e r s)) = networkInputs (events s) \<and>
         performSpeak e r (s\<lparr>audioCache := c\<rparr>) = (performSpeak e r s)\<lparr>audioCache := c\<rparr> \<and>
         (baseLanguageOf (languageCode r) \<notin> {''en'', ''hi'', ''kn''} \<or> route r = None \<or>
          (\<exists>rt. route r = Some rt \<and> getAudioForRoute e rt (baseLanguageOf (languageCode r)) = None)
            \<longrightarrow> performSpeak e r s = s)"
proof -
  have 1: "networkInputs (events (performSpeak e r s)) = networkInputs (events s)"
    using assms by (simp add: performSpeak_networkInputs)
  have 2: "performSpeak e r (s\<lparr>audioCache := c\<rparr>) = (performSpeak e r s)\<lparr>audioCache := c\<rparr>"
    using assms
    by (simp add: performSpeak_offline playStoredAudio_audioCache_update split: option.splits)
  have 3: "performSpeak e r s = s"
    if "baseLanguageOf (languageCode r) \<notin> {''en'', ''hi'', ''kn''} \<or> route r = None \<or>
        (\<exists>rt. route r = Some rt \<and> getAudioForRoute e rt (baseLanguageOf (languageCode r)) = None)"
  proof -
    from that have "storedAudioFor e r = None"
      by (auto simp: storedAudioFor_def LOCAL_AUDIO_LANGUAGES_def Let_def split: option.splits)
    with assms show ?thesis by (simp add: performSpeak_offline)
  qed
  from 1 2 3 show ?thesis by blast
qed

text \<open>
  Claim C8. Offline, for a base language among en, hi, kn and a route with a bundled asset,
  \<^verbatim>\<open>performSpeak\<close> stops what is playing, asks the audio subsystem to play the asset and
  makes no call of the speech backend; when the subsystem creates the sound, it is the one
  held and playing.
\<close>

theorem offline_asset_played:
  assumes "\<not> isOnline e"
    and "baseLanguageOf (languageCode r) \<in> {''en'', ''hi'', ''kn''}"
    and "route r = Some rt" and "rt \<noteq> []"
    and "getAudioForRoute e rt (baseLanguageOf (languageCode r)) = Some a" and "a \<noteq> []"
  shows "networkInputs (events (performSpeak e r s)) = networkInputs (events s) \<and>
         events (performSpeak e r s) = events (safeStopAudio s) @
           [CreateAsync (''data:audio/wav;base64,'' @ a)
              (if storedPlaybackOk e then Some (nextHandle s) else None)] \<and>
         (storedPlaybackOk e \<longrightarrow>
            soundRef (performSpeak e r s) = Some (nextHandle s) \<and>
            playing (performSpeak e r s) = playing (safeStopAudio s) @ [nextHandle s])"
proof -
  have st: "storedAudioFor e r = Some a"
    using assms by (simp add: storedAudioFor_def LOCAL_AUDIO_LANGUAGES_def Let_def)
  have p: "performSpeak e r s = snd (playStoredAudio e a s)"
    using assms(1) st by (simp add: performSpeak_offline)
  have n: "networkInputs (events (performSpeak e r s)) = networkInputs (events s)"
    using assms(1) by (simp add: performSpeak_networkInputs)
  show ?thesis
    unfolding p using n [unfolded p] assms(6)
    by (simp add: playStoredAudio_def createAsync_def Let_def)
qed

theorem offline_asset_played_witness:
  "\<not> isOnline envOffline \<and>
   events (speakText envOffline ''Hi'' (JString ''hi-IN'') (JString ''home'') initState) =
     [CreateAsync ''data:audio/wav;base64,QUJD'' (Some 0)] \<and>
   playing (speakText envOffline ''Hi'' (JString ''hi-IN'') (JString ''home'') initState) = [0] \<and>
   networkInputs (events (speakText envOffline ''Hi'' (JString ''hi-IN'') (JString ''home'') initState)) = []"
  using offline_asset_played [of envOffline requestHome "''home''" "''QUJD''"
      "initState\<lparr>requestQueue := [], processingQueue := True\<rparr>"]
  by (simp add: envOffline_def envOnline_def requestHome_def baseLanguageOf_def
        exampleStorage_def speakText_def processQueue_def initState_def safeStopAudio_def Let_def)

subsection \<open>The text of a request\<close>

text \<open>
  Claim C6. A call of \<^verbatim>\<open>speakText\<close> that is not refused (ready, not muted, text not empty)
  enqueues the text unchanged when it has at most 300 characters, and its first 300
  characters followed by \<^verbatim>\<open>...\<close> otherwise; when the queue is idle the same text is the
  request given to \<^verbatim>\<open>performSpeak\<close>, and the only \<^verbatim>\<open>input\<close> it may send to the
  speech backend.
\<close>

theorem speakText_truncates_text:
  assumes "isReady e" and "\<not> isMuted e" and "text \<noteq> []"
  shows "\<exists>l rt ins.
     (processingQueue s \<longrightarrow>
        speakText e text lc ra s =
          s\<lparr>requestQueue := requestQueue s @
            [\<lparr>text' = (if length text \<le> 300 then text else take 300 text @ ''...''),
              languageCode = l, route = rt\<rparr>]\<rparr>) \<and>
     (\<not> processingQueue s \<and> requestQueue s = [] \<longrightarrow>
        speakText e text lc ra s =
          (let s2 = performSpeak e
                      \<lparr>text' = (if length text \<le> 300 then text else take 300 text @ ''...''),
                        languageCode = l, route = rt\<rparr>
                      (s\<lparr>processingQueue := True\<rparr>)
           in s2\<lparr>timers := timers s2 @ [(500, DrainTimer (closureOf e))]\<rparr>) \<and>
        networkInputs (events (speakText e text lc ra s)) = networkInputs (events s) @ ins \<and>
        set ins \<subseteq> {if length text \<le> 300 then text else take 300 text @ ''...''})"
proof -
  define T where "T = (if length text \<le> 300 then text else take 300 text @ ''...'')"
  define l where "l = (case lc of JString x \<Rightarrow> if x = [] then ''en'' else x | _ \<Rightarrow> ''en'')"
  define rt where "rt = (case ra of JString x \<Rightarrow> Some x | _ \<Rightarrow> None)"
  define r1 where "r1 = \<lparr>text' = T, languageCode = l, route = rt\<rparr>"
  define ins where "ins = (if isOnline e \<and> (storedAudioFor e r1 = None \<or> \<not> storedPlaybackOk e) \<and>
           \<not> cacheHas (cacheKey (text' r1) (languageCode r1)) (audioCache s)
        then [text' r1] else [])"
  have T': "(if 300 < length text then take 300 text @ ''...'' else text) = T"
    by (simp add: T_def)
  have busy: "speakText e text lc ra s = s\<lparr>requestQueue := requestQueue s @ [r1]\<rparr>"
    if "processingQueue s"
    using assms that
    by (simp add: speakText_def Let_def T' r1_def l_def rt_def)
  have idle: "speakText e text lc ra s =
      (let s2 = performSpeak e r1 (s\<lparr>processingQueue := True\<rparr>)
       in s2\<lparr>timers := timers s2 @ [(500, DrainTimer (closureOf e))]\<rparr>)"
    if "\<not> processingQueue s" and "requestQueue s = []"
  proof -
    have q: "s\<lparr>processingQueue := True, requestQueue := []\<rparr> = s\<lparr>processingQueue := True\<rparr>"
      using that(2) by (cases s) simp
    show ?thesis
      using assms that
      by (simp add: speakText_def processQueue_def Let_def T' r1_def l_def rt_def q)
  qed
  have net: "networkInputs (events (speakText e text lc ra s)) = networkInputs (events s) @ ins"
    if "\<not> processingQueue s" and "requestQueue s = []"
    unfolding idle [OF that]
    by (simp add: Let_def performSpeak_networkInputs ins_def)
  have sub: "set ins \<subseteq> {T}"
    by (auto simp: ins_def r1_def)
  show ?thesis
    using busy idle net sub unfolding r1_def T_def by blast
qed

theorem speakText_truncates_text_witness:
  "isReady envOnline \<and> \<not> isMuted envOnline \<and> replicate 301 (CHR ''a'') \<noteq> [] \<and>
   networkInputs (events (speakText envOnline (replicate 301 (CHR ''a'')) JUndefined JNull initState)) =
     [replicate 300 (CHR ''a'') @ ''...''] \<and>
   networkInputs (events (speakText envOnline ''Hi'' JUndefined JNull initState)) = [''Hi'']"
  using speakText_truncates_text [of envOnline "replicate 301 (CHR ''a'')" initState JUndefined JNull]
  by (simp add: envOnline_def initState_def speakText_def processQueue_def Let_def
        performSpeak_networkInputs storedAudioFor_def cacheHas_def)

subsection \<open>Rate limiting\<close>

lemma synthesize_timers_429:
  "response e = HttpError 429 \<Longrightarrow>
     timers (synthesize e r s) = timers s @ [(5000 + jitter e, RetryTimer (closureOf e) r)] \<and>
     requestQueue (synthesize e r s) = requestQueue s"
  by (simp add: synthesize_def catchError_def Let_def)

lemma performSpeak_reaches_synthesize:
  assumes "isOnline e" and "storedAudioFor e r = None \<or> \<not> storedPlaybackOk e"
    and "\<not> cacheHas (cacheKey (text' r) (languageCode r)) (audioCache s)"
  shows "\<exists>s1. performSpeak e r s = synthesize e r s1 \<and> audioCache s1 = audioCache s \<and>
           retryCount s1 = retryCount s \<and> requestQueue s1 = requestQueue s \<and>
           timers s1 = timers s \<and> soundRef s1 = None \<and>
           networkInputs (events s1) = networkInputs (events s)"
proof (cases "storedAudioFor e r")
  case None
  with assms show ?thesis
    by (auto simp: performSpeak_def Let_def cacheOrSynthesize_def cacheHas_map_of
        intro!: exI [of _ "safeStopAudio s"])
next
  case (Some a)
  then have ne: "a \<noteq> []" by (rule storedAudioFor_nonempty)
  from Some assms(2) have nok: "\<not> storedPlaybackOk e" by simp
  obtain b s2 where p: "playStoredAudio e a (safeStopAudio s) = (b, s2)"
    by (cases "playStoredAudio e a (safeStopAudio s)")
  have b: "\<not> b"
    using playStoredAudio_fields(6) [of e a "safeStopAudio s"] p nok by simp
  have s2: "s2 = snd (playStoredAudio e a (safeStopAudio s))"
    using p by simp
  have sr: "soundRef s2 = None"
    using nok ne unfolding s2
    by (simp add: playStoredAudio_def createAsync_def Let_def)
  have f: "audioCache s2 = audioCache s" "retryCount s2 = retryCount s"
      "requestQueue s2 = requestQueue s" "timers s2 = timers s"
      "networkInputs (events s2) = networkInputs (events s)"
    unfolding s2 by simp_all
  have "performSpeak e r s = synthesize e r s2"
    using assms(1,3) Some p b f(1)
    by (auto simp: performSpeak_def Let_def cacheOrSynthesize_def cacheHas_map_of)
  with sr f show ?thesis by blast
qed

text \<open>
  Claim C3. When the synthesis of a request fails with HTTP 429, one timer with a delay of
  5000 ms up to (not including) 5500 ms is set for that very request and the queue is left
  as it is; when the timer fires, the request goes to the end of the queue if the queue then
  holds fewer than 5 requests (and the drain starts if it is idle), and otherwise nothing
  happens: the request is dropped.
\<close>

theorem rate_limited_request_requeued:
  assumes "isOnline e" and "storedAudioFor e r = None \<or> \<not> storedPlaybackOk e"
    and "\<not> cacheHas (cacheKey (text' r) (languageCode r)) (audioCache s)"
    and "response e = HttpError 429" and "jitter e < 500"
  shows "\<exists>d. 5000 \<le> d \<and> d < 5500 \<and>
           timers (performSpeak e r s) = timers s @ [(d, RetryTimer (closureOf e) r)] \<and>
           requestQueue (performSpeak e r s) = requestQueue s \<and>
           (\<forall>e' s'. fireTimer e' (RetryTimer (closureOf e) r) s' =
              (if length (requestQueue s') < 5
               then (if processingQueue s'
                     then s'\<lparr>requestQueue := requestQueue s' @ [r]\<rparr>
                     else processQueue (withClosure (closureOf e) e')
                            (s'\<lparr>requestQueue := requestQueue s' @ [r]\<rparr>))
               else s'))"
proof -
  obtain s1 where s1: "performSpeak e r s = synthesize e r s1"
      "requestQueue s1 = requestQueue s" "timers s1 = timers s"
    using performSpeak_reaches_synthesize [OF assms(1-3)] by blast
  have t: "timers (performSpeak e r s) = timers s @ [(5000 + jitter e, RetryTimer (closureOf e) r)]"
    and q: "requestQueue (performSpeak e r s) = requestQueue s"
    using synthesize_timers_429 [OF assms(4), of r s1] s1 by simp_all
  have f: "fireTimer e' (RetryTimer (closureOf e) r) s' =
              (if length (requestQueue s') < 5
               then (if processingQueue s'
                     then s'\<lparr>requestQueue := requestQueue s' @ [r]\<rparr>
                     else processQueue (withClosure (closureOf e) e')
                            (s'\<lparr>requestQueue := requestQueue s' @ [r]\<rparr>))
               else s')" for e' s'
    by (simp add: fireTimer_def Let_def)
  from assms(5) have "5000 \<le> 5000 + jitter e \<and> 5000 + jitter e < 5500" by simp
  with t q f show ?thesis by blast
qed

theorem rate_limited_request_requeued_witness:
  "isOnline envRateLimited \<and> response envRateLimited = HttpError 429 \<and> jitter envRateLimited < 500 \<and>
   timers (performSpeak envRateLimited requestHello initState) =
     [(5250, RetryTimer (True, False) requestHello)] \<and>
   requestQueue (step envRateLimited (FireTimer 0)
      (performSpeak envRateLimited requestHello initState\<lparr>processingQueue := True\<rparr>)) = [requestHello] \<and>
   requestQueue (step envRateLimited (FireTimer 0)
      (performSpeak envRateLimited requestHello initState
         \<lparr>processingQueue := True, requestQueue := replicate 5 requestHello\<rparr>)) = replicate 5 requestHello"
  using rate_limited_request_requeued [of envRateLimited requestHello initState]
  by (simp add: envRateLimited_def envOnline_def requestHello_def initState_def storedAudioFor_def
        cacheHas_def performSpeak_def safeStopAudio_def cacheOrSynthesize_def synthesize_def
        catchError_def Let_def step_def fireTimer_def cacheKey_def closureOf_def withClosure_def)

subsection \<open>The capacity of the cache\<close>

lemma cacheDelete_absent: "k \<notin> fst ` set c \<Longrightarrow> cacheDelete k c = c"
  by (induction c) (auto simp: cacheDelete_def)

lemma cachePut_absent:
  assumes "\<not> cacheHas k c" and "length c \<le> 50" and "distinct (map fst c)"
  shows "cachePut k v c = (if length c < 50 then c else tl c) @ [(k, v)]"
proof (cases "length c < 50")
  case True
  with assms(1) show ?thesis
    by (simp add: cachePut_def cacheSet_def Let_def)
next
  case False
  with assms(2) have len: "length c = 50" by simp
  then obtain k0 v0 rest where c: "c = (k0, v0) # rest"
    by (cases c) auto
  from assms(3) c have "k0 \<notin> fst ` set rest" by simp
  moreover from assms(1) c have "k0 \<noteq> k" by (auto simp: cacheHas_def)
  ultimately have "cacheDelete k0 (c @ [(k, v)]) = rest @ [(k, v)]"
    using cacheDelete_absent [of k0 rest] by (simp add: c cacheDelete_def)
  with assms(1) len c show ?thesis
    by (simp add: cachePut_def cacheSet_def Let_def)
qed

lemma synthesize_audioCache:
  "audioCache (synthesize e r s) = audioCache s \<or>
   (\<exists>uri. audioCache (synthesize e r s) =
      cachePut (cacheKey (text' r) (languageCode r)) uri (audioCache s))"
proof (cases "response e")
  case (Success content)
  then show ?thesis
    by (cases content; cases "playbackOk e")
       (auto simp: synthesize_def Let_def createAsync_def catchError_def)
next
  case (HttpError code)
  then show ?thesis by (simp add: synthesize_def Let_def)
next
  case NetworkFailure
  then show ?thesis by (simp add: synthesize_def Let_def)
qed

lemma cacheOrSynthesize_audioCache:
  "audioCache (cacheOrSynthesize e r s) = audioCache s \<or>
   (\<not> cacheHas (cacheKey (text' r) (languageCode r)) (audioCache s) \<and>
    (\<exists>uri. audioCache (cacheOrSynthesize e r s) =
       cachePut (cacheKey (text' r) (languageCode r)) uri (audioCache s)))"
proof (cases "map_of (audioCache s) (cacheKey (text' r) (languageCode r))")
  case None
  then show ?thesis
    using synthesize_audioCache [of e r s]
    by (simp add: cacheOrSynthesize_def cacheHas_map_of)
next
  case (Some uri)
  then show ?thesis
    by (cases "playbackOk e") (simp_all add: cacheOrSynthesize_def createAsync_def Let_def)
qed

lemma performSpeak_audioCache:
  "audioCache (performSpeak e r s) = audioCache s \<or>
   (\<not> cacheHas (cacheKey (text' r) (languageCode r)) (audioCache s) \<and>
    (\<exists>uri. audioCache (performSpeak e r s) =
       cachePut (cacheKey (text' r) (languageCode r)) uri (audioCache s)))"
proof (cases "isOnline e")
  case False
  then show ?thesis by (simp add: performSpeak_offline split: option.splits)
next
  case True
  show ?thesis
  proof (cases "storedAudioFor e r")
    case None
    with True show ?thesis
      using cacheOrSynthesize_audioCache [of e r "safeStopAudio s"]
      by (simp add: performSpeak_def Let_def)
  next
    case (Some a)
    obtain b s2 where p: "playStoredAudio e a (safeStopAudio s) = (b, s2)"
      by (cases "playStoredAudio e a (safeStopAudio s)")
    have c: "audioCache s2 = audioCache s"
      using playStoredAudio_fields(1) [of e a "safeStopAudio s"] p by simp
    show ?thesis
      using True Some p c cacheOrSynthesize_audioCache [of e r s2]
      by (cases b) (simp_all add: performSpeak_def Let_def)
  qed
qed

lemma performSpeak_cache_step:
  assumes "length (audioCache s) \<le> 50" and "distinct (map fst (audioCache s))"
  shows "length (audioCache (performSpeak e r s)) \<le> 50 \<and>
         distinct (map fst (audioCache (performSpeak e r s))) \<and>
         (audioCache (performSpeak e r s) = audioCache s \<or>
          (\<exists>uri. \<not> cacheHas (cacheKey (text' r) (languageCode r)) (audioCache s) \<and>
             audioCache (performSpeak e r s) =
               (if length (audioCache s) < 50 then audioCache s else tl (audioCache s)) @
               [(cacheKey (text' r) (languageCode r), uri)]))"
proof -
  let ?k = "cacheKey (text' r) (languageCode r)"
  let ?c = "audioCache s"
  let ?c' = "audioCache (performSpeak e r s)"
  from performSpeak_audioCache [of e r s]
  consider "?c' = ?c" | uri where "\<not> cacheHas ?k ?c" and "?c' = cachePut ?k uri ?c"
    by blast
  then show ?thesis
  proof cases
    case 1
    with assms show ?thesis by simp
  next
    case 2
    have eq: "?c' = (if length ?c < 50 then ?c else tl ?c) @ [(?k, uri)]"
      using 2 cachePut_absent [OF 2(1) assms] by simp
    have notin: "?k \<notin> fst ` set ?c"
      using 2(1) by (simp add: cacheHas_def)
    have len: "length ?c' \<le> 50"
      using assms(1) by (simp add: eq)
    have dis: "distinct (map fst ?c')"
    proof (cases "length ?c < 50")
      case True
      with assms(2) notin show ?thesis by (simp add: eq)
    next
      case False
      have "distinct (map fst (tl ?c))"
        using assms(2) by (simp add: distinct_tl map_tl)
      moreover have "?k \<notin> fst ` set (tl ?c)"
        using notin by (cases ?c) auto
      ultimately show ?thesis using False by (simp add: eq)
    qed
    from len dis eq 2(1) show ?thesis by blast
  qed
qed

lemma cacheInv_cong: "audioCache s' = audioCache s \<Longrightarrow> cacheInv s' = cacheInv s"
  by (simp add: cacheInv_def)

lemma cacheInv_performSpeak: "cacheInv s \<Longrightarrow> cacheInv (performSpeak e r s)"
  using performSpeak_cache_step [of s e r] by (simp add: cacheInv_def)

lemma cacheInv_processQueue: "cacheInv s \<Longrightarrow> cacheInv (processQueue e s)"
proof (cases "requestQueue s")
  case Nil
  then show "cacheInv s \<Longrightarrow> ?thesis"
    by (simp add: processQueue_def cacheInv_def)
next
  case (Cons request rest)
  assume "cacheInv s"
  then have "cacheInv (s\<lparr>processingQueue := True, requestQueue := rest\<rparr>)"
    by (simp add: cacheInv_def)
  then have "cacheInv (performSpeak e request (s\<lparr>processingQueue := True, requestQueue := rest\<rparr>))"
    by (rule cacheInv_performSpeak)
  then show ?thesis
    using Cons by (simp add: processQueue_def Let_def cacheInv_def)
qed

lemma cacheInv_enqueue: "cacheInv (s\<lparr>requestQueue := q\<rparr>) = cacheInv s"
  by (simp add: cacheInv_def)

lemma cacheInv_speakText: "cacheInv s \<Longrightarrow> cacheInv (speakText e t l rt s)"
  by (simp add: speakText_def Let_def cacheInv_processQueue cacheInv_enqueue)

lemma cacheInv_fireTimer: "cacheInv s \<Longrightarrow> cacheInv (fireTimer e k s)"
  by (cases k) (simp_all add: fireTimer_def Let_def cacheInv_processQueue cacheInv_enqueue,
      simp add: cacheInv_def)

lemma cacheInv_step: "cacheInv s \<Longrightarrow> cacheInv (step e o1 s)"
proof (cases o1)
  case (SpeakText t l rt)
  then show "cacheInv s \<Longrightarrow> ?thesis" by (simp add: step_def cacheInv_speakText)
next
  case StopAudio
  then show "cacheInv s \<Longrightarrow> ?thesis" by (simp add: step_def stopAudio_def cacheInv_def)
next
  case (FireTimer i)
  assume "cacheInv s"
  then have "cacheInv (s\<lparr>timers := take i (timers s) @ drop (Suc i) (timers s)\<rparr>)"
    by (simp add: cacheInv_def)
  then show ?thesis
    using FireTimer \<open>cacheInv s\<close> by (simp add: step_def cacheInv_fireTimer)
next
  case (PlaybackFinished h)
  then show "cacheInv s \<Longrightarrow> ?thesis"
    by (simp add: step_def handlePlaybackStatus_def Let_def cacheInv_def split: option.splits)
qed

lemma cacheInv_run: "cacheInv s \<Longrightarrow> cacheInv (run ops s)"
  by (induction ops arbitrary: s) (auto simp: cacheInv_step)

text \<open>
  Claim C2. The cache never holds more than 50 entries, whatever calls, timers and playback
  ends there have been. Processing a request either leaves the cache as it is (so a hit does
  not move an entry) or appends one entry under a key that was absent; when the cache was
  full, the entry inserted first, and only that one, is removed. No entry that stays changes
  its value.
\<close>

theorem audioCache_bounded_oldest_evicted:
  assumes "length (audioCache s) \<le> 50" and "distinct (map fst (audioCache s))"
  shows "length (audioCache (run ops initState)) \<le> 50 \<and>
         length (audioCache (performSpeak e r s)) \<le> 50 \<and>
         distinct (map fst (audioCache (performSpeak e r s))) \<and>
         (audioCache (performSpeak e r s) = audioCache s \<or>
          (\<exists>uri. \<not> cacheHas (cacheKey (text' r) (languageCode r)) (audioCache s) \<and>
             audioCache (performSpeak e r s) =
               (if length (audioCache s) < 50 then audioCache s else tl (audioCache s)) @
               [(cacheKey (text' r) (languageCode r), uri)]))"
proof -
  have "cacheInv initState" by (simp add: cacheInv_def initState_def)
  then have "cacheInv (run ops initState)" by (rule cacheInv_run)
  then have "length (audioCache (run ops initState)) \<le> 50" by (simp add: cacheInv_def)
  with performSpeak_cache_step [OF assms, of e r] show ?thesis by simp
qed

theorem audioCache_bounded_oldest_evicted_witness:
  "length fullCache = 50 \<and> distinct (map fst fullCache) \<and>
   audioCache (performSpeak envOnline requestHello (initState\<lparr>audioCache := fullCache\<rparr>)) =
     tl fullCache @ [(''Hello_en'', ''data:audio/wav;base64,UklGRg'')]"
proof -
  have a: "length fullCache = 50" by code_simp
  have b: "distinct (map fst fullCache)" by code_simp
  have c: "audioCache (performSpeak envOnline requestHello (initState\<lparr>audioCache := fullCache\<rparr>)) =
     tl fullCache @ [(''Hello_en'', ''data:audio/wav;base64,UklGRg'')]" by code_simp
  have "length (audioCache (initState\<lparr>audioCache := fullCache\<rparr>)) \<le> 50"
    using a by simp
  moreover have "distinct (map fst (audioCache (initState\<lparr>audioCache := fullCache\<rparr>)))"
    using b by simp
  ultimately have "length (audioCache (performSpeak envOnline requestHello
      (initState\<lparr>audioCache := fullCache\<rparr>))) \<le> 50"
    using audioCache_bounded_oldest_evicted [of "initState\<lparr>audioCache := fullCache\<rparr>" "[]" envOnline requestHello]
    by blast
  with a b c show ?thesis by simp
qed

subsection \<open>One sound at a time\<close>

lemma quiet_playbackInv: "quiet s \<Longrightarrow> playbackInv s"
  by (simp add: quiet_def playbackInv_def)

lemma quiet_safeStopAudio: "playbackInv s \<Longrightarrow> quiet (safeStopAudio s)"
  by (auto simp: playbackInv_def quiet_def safeStopAudio_def split: option.splits)

lemma playbackInv_createAsync:
  "quiet s \<Longrightarrow>
     (case createAsync ok uri s of
        (Some h, s') \<Rightarrow> playbackInv (s'\<lparr>soundRef := Some h\<rparr>) \<and>
                        playbackInv (s'\<lparr>soundRef := Some h, retryCount := 0\<rparr>)
      | (None, s') \<Rightarrow> quiet s')"
  by (simp add: createAsync_def Let_def quiet_def playbackInv_def)

lemma playStoredAudio_playbackInv:
  assumes "playbackInv s"
  shows "case playStoredAudio e a s of (True, s') \<Rightarrow> playbackInv s' | (False, s') \<Rightarrow> s' = s \<or> quiet s'"
proof (cases "a = []")
  case True
  then show ?thesis by (simp add: playStoredAudio_def)
next
  case False
  have q: "quiet (safeStopAudio s)" using assms by (rule quiet_safeStopAudio)
  show ?thesis
    using False playbackInv_createAsync [OF q, of "storedPlaybackOk e" "''data:audio/wav;base64,'' @ a"]
    by (auto simp: playStoredAudio_def Let_def split: prod.splits option.splits)
qed

lemma quiet_catchError: "quiet s \<Longrightarrow> quiet (catchError e r st s)"
  by (simp add: catchError_def Let_def quiet_def)

lemma playbackInv_synthesize:
  assumes "quiet s"
  shows "playbackInv (synthesize e r s)"
proof -
  let ?s1 = "s\<lparr>lastApiCallTimestamp := now e,
       events := events s @ [NetworkCall (baseLanguageOf (languageCode r)) (text' r)
                               (serviceIdOf (baseLanguageOf (languageCode r)))]\<rparr>"
  have q1: "quiet ?s1" using assms by (simp add: quiet_def)
  have err: "playbackInv (catchError e r st ?s1)" for st
    using q1 by (intro quiet_playbackInv quiet_catchError)
  show ?thesis
  proof (cases "response e")
    case (HttpError code)
    then show ?thesis using err by (simp add: synthesize_def Let_def)
  next
    case NetworkFailure
    then show ?thesis using err by (simp add: synthesize_def Let_def)
  next
    case (Success content)
    show ?thesis
    proof (cases "isMuted e \<or> content = None \<or> content = Some []")
      case True
      then show ?thesis
        using Success err quiet_playbackInv [OF q1]
        by (auto simp: synthesize_def Let_def)
    next
      case False
      then obtain a where a: "content = Some a" "a \<noteq> []" "\<not> isMuted e" by auto
      let ?s2 = "?s1\<lparr>audioCache := cachePut (cacheKey (text' r) (languageCode r))
                    (''data:audio/wav;base64,'' @ a) (audioCache ?s1)\<rparr>"
      have q2: "quiet ?s2" using q1 by (simp add: quiet_def)
      show ?thesis
        using Success a
          playbackInv_createAsync [OF q2, of "playbackOk e" "''data:audio/wav;base64,'' @ a"]
        by (auto simp: synthesize_def Let_def split: prod.splits option.splits
            intro: quiet_playbackInv quiet_catchError)
    qed
  qed
qed

lemma playbackInv_cacheOrSynthesize:
  assumes "quiet s"
  shows "playbackInv (cacheOrSynthesize e r s)"
proof (cases "map_of (audioCache s) (cacheKey (text' r) (languageCode r))")
  case None
  then show ?thesis
    using playbackInv_synthesize [OF assms] by (simp add: cacheOrSynthesize_def)
next
  case (Some uri)
  then show ?thesis
    using playbackInv_createAsync [OF assms, of "playbackOk e" uri]
    by (auto simp: cacheOrSynthesize_def split: prod.splits option.splits
        intro: quiet_playbackInv quiet_catchError)
qed

lemma playbackInv_performSpeak:
  assumes "playbackInv s"
  shows "playbackInv (performSpeak e r s)"
proof (cases "isOnline e")
  case False
  show ?thesis
  proof (cases "storedAudioFor e r")
    case None
    with False assms show ?thesis by (simp add: performSpeak_offline)
  next
    case (Some a)
    with False assms playStoredAudio_playbackInv [OF assms, of e a] show ?thesis
      by (auto simp: performSpeak_offline split: prod.splits bool.splits
          intro: quiet_playbackInv)
  qed
next
  case True
  have q: "quiet (safeStopAudio s)" using assms by (rule quiet_safeStopAudio)
  show ?thesis
  proof (cases "storedAudioFor e r")
    case None
    with True show ?thesis
      using playbackInv_cacheOrSynthesize [OF q] by (simp add: performSpeak_def Let_def)
  next
    case (Some a)
    with True playStoredAudio_playbackInv [OF quiet_playbackInv [OF q], of e a] q show ?thesis
      by (auto simp: performSpeak_def Let_def split: prod.splits bool.splits
          intro: playbackInv_cacheOrSynthesize)
  qed
qed

lemma playbackInv_other_fields [simp]:
  "playbackInv (s\<lparr>requestQueue := q\<rparr>) = playbackInv s"
  "playbackInv (s\<lparr>processingQueue := b\<rparr>) = playbackInv s"
  "playbackInv (s\<lparr>timers := ts\<rparr>) = playbackInv s"
  "playbackInv (s\<lparr>retryCount := n\<rparr>) = playbackInv s"
  by (simp_all add: playbackInv_def split: option.splits)

lemma playbackInv_processQueue: "playbackInv s \<Longrightarrow> playbackInv (processQueue e s)"
  by (cases "requestQueue s") (simp_all add: processQueue_def Let_def playbackInv_performSpeak)

lemma playbackInv_speakText: "playbackInv s \<Longrightarrow> playbackInv (speakText e t l rt s)"
  by (simp add: speakText_def Let_def playbackInv_processQueue)

lemma playbackInv_fireTimer: "playbackInv s \<Longrightarrow> playbackInv (fireTimer e k s)"
  by (cases k) (simp_all add: fireTimer_def Let_def playbackInv_processQueue)

lemma playbackInv_handlePlaybackStatus:
  "playbackInv s \<Longrightarrow> playbackInv (handlePlaybackStatus h s)"
  by (auto simp: handlePlaybackStatus_def playbackInv_def Let_def split: option.splits)

lemma playbackInv_step: "playbackInv s \<Longrightarrow> playbackInv (step e o1 s)"
  by (cases o1)
     (simp_all add: step_def stopAudio_def playbackInv_speakText playbackInv_fireTimer
        playbackInv_handlePlaybackStatus quiet_playbackInv quiet_safeStopAudio)

lemma playbackInv_run: "playbackInv s \<Longrightarrow> playbackInv (run ops s)"
  by (induction ops arbitrary: s) (auto simp: playbackInv_step)

text \<open>
  Claim C1. Whatever calls of \<^verbatim>\<open>speakText\<close> and \<^verbatim>\<open>stopAudio\<close>, timers and playback ends
  there have been since the component was mounted, there have never been two sounds playing
  at once: the only sound that can be playing is the one \<^verbatim>\<open>soundRef\<close> holds, and it is the
  sound created last, every earlier one having been stopped and unloaded before.
\<close>

theorem at_most_one_sound_playing:
  "peakPlaying (run ops initState) \<le> 1 \<and>
   length (playing (run ops initState)) \<le> 1 \<and>
   playing (run ops initState) =
     (case soundRef (run ops initState) of None \<Rightarrow> [] | Some h \<Rightarrow> [h]) \<and>
   (playing (run ops initState) = [] \<or>
    playing (run ops initState) = [nextHandle (run ops initState) - 1])"
proof -
  have "playbackInv initState" by (simp add: playbackInv_def initState_def)
  then have "playbackInv (run ops initState)" by (rule playbackInv_run)
  then show ?thesis
    by (auto simp: playbackInv_def split: option.splits)
qed

theorem at_most_one_sound_playing_witness:
  "events (run opsTwoRequests initState) =
     [NetworkCall ''en'' ''one'' ''ai4bharat/indic-tts-indo-aryan--gpu-t4'',
      CreateAsync ''data:audio/wav;base64,UklGRg'' (Some 0),
      StopAsync 0, UnloadAsync 0,
      NetworkCall ''en'' ''two'' ''ai4bharat/indic-tts-indo-aryan--gpu-t4'',
      CreateAsync ''data:audio/wav;base64,UklGRg'' (Some 1)] \<and>
   playing (run opsTwoRequests initState) = [1] \<and>
   peakPlaying (run opsTwoRequests initState) \<le> 1"
proof -
  have "events (run opsTwoRequests initState) =
     [NetworkCall ''en'' ''one'' ''ai4bharat/indic-tts-indo-aryan--gpu-t4'',
      CreateAsync ''data:audio/wav;base64,UklGRg'' (Some 0),
      StopAsync 0, UnloadAsync 0,
      NetworkCall ''en'' ''two'' ''ai4bharat/indic-tts-indo-aryan--gpu-t4'',
      CreateAsync ''data:audio/wav;base64,UklGRg'' (Some 1)]"
    by code_simp
  moreover have "playing (run opsTwoRequests initState) = [1]"
    by code_simp
  ultimately show ?thesis
    using at_most_one_sound_playing [of opsTwoRequests] by simp
qed

subsection \<open>The retry counter\<close>

lemma performSpeak_falls_through:
  assumes "isOnline e" and "storedAudioFor e r = None \<or> \<not> storedPlaybackOk e"
  shows "\<exists>s1. performSpeak e r s = cacheOrSynthesize e r s1 \<and> audioCache s1 = audioCache s \<and>
           retryCount s1 = retryCount s \<and> timers s1 = timers s"
proof (cases "storedAudioFor e r")
  case None
  with assms show ?thesis
    by (auto simp: performSpeak_def Let_def intro!: exI [of _ "safeStopAudio s"])
next
  case (Some a)
  from Some assms(2) have nok: "\<not> storedPlaybackOk e" by simp
  obtain b s2 where p: "playStoredAudio e a (safeStopAudio s) = (b, s2)"
    by (cases "playStoredAudio e a (safeStopAudio s)")
  have b: "\<not> b"
    using playStoredAudio_fields(6) [of e a "safeStopAudio s"] p nok by simp
  have s2: "s2 = snd (playStoredAudio e a (safeStopAudio s))"
    using p by simp
  have f: "audioCache s2 = audioCache s" "retryCount s2 = retryCount s" "timers s2 = timers s"
    unfolding s2 by simp_all
  have "performSpeak e r s = cacheOrSynthesize e r s2"
    using assms(1) Some p b by (simp add: performSpeak_def Let_def)
  with f show ?thesis by blast
qed

lemma performSpeak_stored_played:
  assumes "isOnline e" and "storedAudioFor e r = Some a" and "storedPlaybackOk e"
  shows "performSpeak e r s = snd (playStoredAudio e a (safeStopAudio s))"
proof -
  have ne: "a \<noteq> []" using assms(2) by (rule storedAudioFor_nonempty)
  obtain b s2 where p: "playStoredAudio e a (safeStopAudio s) = (b, s2)"
    by (cases "playStoredAudio e a (safeStopAudio s)")
  have b: "b"
    using playStoredAudio_fields(6) [of e a "safeStopAudio s"] p ne assms(3) by simp
  show ?thesis
    using assms(1,2) p b by (simp add: performSpeak_def Let_def)
qed

lemma synthesize_retryCount:
  "retryCount (synthesize e r s) =
     (case response e of
        HttpError code \<Rightarrow> Suc (retryCount s)
      | NetworkFailure \<Rightarrow> Suc (retryCount s)
      | Success content \<Rightarrow>
          if isMuted e then retryCount s
          else if content = None \<or> content = Some [] then Suc (retryCount s)
          else if playbackOk e then 0 else Suc (retryCount s))"
proof (cases "response e")
  case (Success content)
  then show ?thesis
    by (cases content; cases "playbackOk e")
       (auto simp: synthesize_def Let_def createAsync_def)
next
  case (HttpError code)
  then show ?thesis by (simp add: synthesize_def Let_def)
next
  case NetworkFailure
  then show ?thesis by (simp add: synthesize_def Let_def)
qed

lemma synthesize_timers:
  "timers (synthesize e r s) = timers s @
     (if response e = HttpError 429 then [(5000 + jitter e, RetryTimer (closureOf e) r)]
      else if response e = HttpError 401 \<and> 3 \<le> retryCount s then [(300000, CooldownTimer)]
      else [])"
proof (cases "response e")
  case (Success content)
  then show ?thesis
    by (cases content; cases "playbackOk e")
       (auto simp: synthesize_def Let_def createAsync_def catchError_def)
next
  case (HttpError code)
  then show ?thesis by (auto simp: synthesize_def Let_def catchError_def)
next
  case NetworkFailure
  then show ?thesis by (simp add: synthesize_def Let_def catchError_def)
qed

lemma cacheOrSynthesize_hit:
  "cacheHas (cacheKey (text' r) (languageCode r)) (audioCache s) \<Longrightarrow>
     retryCount (cacheOrSynthesize e r s) = (if playbackOk e then retryCount s else Suc (retryCount s)) \<and>
     timers (cacheOrSynthesize e r s) = timers s"
  by (cases "playbackOk e")
     (auto simp: cacheOrSynthesize_def cacheHas_map_of createAsync_def catchError_def Let_def)

lemma cacheOrSynthesize_miss:
  "\<not> cacheHas (cacheKey (text' r) (languageCode r)) (audioCache s) \<Longrightarrow>
     cacheOrSynthesize e r s = synthesize e r s"
  by (simp add: cacheOrSynthesize_def cacheHas_map_of)

text \<open>
  How \<^verbatim>\<open>performSpeak\<close> changes the counter, for any values of its closure: the counter goes
  up by one whenever the \<^verbatim>\<open>catch\<close> block runs, whatever the error; it goes to zero when a
  fresh synthesis succeeds and when the cooldown timer fires; that timer is set only by a
  failure with status 401 that takes the counter above 3.
\<close>

lemma performSpeak_retryCount:
  "retryCount (performSpeak e r s) =
     (if \<not> isOnline e then retryCount s
      else if storedAudioFor e r \<noteq> None \<and> storedPlaybackOk e then retryCount s
      else if cacheHas (cacheKey (text' r) (languageCode r)) (audioCache s) then
        (if playbackOk e then retryCount s else Suc (retryCount s))
      else
        (case response e of
           HttpError code \<Rightarrow> Suc (retryCount s)
         | NetworkFailure \<Rightarrow> Suc (retryCount s)
         | Success content \<Rightarrow>
             if isMuted e then retryCount s
             else if content = None \<or> content = Some [] then Suc (retryCount s)
             else if playbackOk e then 0 else Suc (retryCount s))) \<and>
   retryCount (fireTimer e CooldownTimer s) = 0 \<and>
   (\<exists>new. timers (performSpeak e r s) = timers s @ new \<and>
      ((300000, CooldownTimer) \<in> set new \<longrightarrow>
         response e = HttpError 401 \<and> 3 < retryCount (performSpeak e r s)))"
proof -
  let ?k = "cacheKey (text' r) (languageCode r)"
  let ?P = "\<lambda>new. timers (performSpeak e r s) = timers s @ new \<and>
      ((300000, CooldownTimer) \<in> set new \<longrightarrow>
         response e = HttpError 401 \<and> 3 < retryCount (performSpeak e r s))"
  have cool: "retryCount (fireTimer e CooldownTimer s) = 0"
    by (simp add: fireTimer_def)
  consider (offline) "\<not> isOnline e"
    | (stored) a where "isOnline e" "storedAudioFor e r = Some a" "storedPlaybackOk e"
    | (hit) "isOnline e" "storedAudioFor e r = None \<or> \<not> storedPlaybackOk e" "cacheHas ?k (audioCache s)"
    | (miss) "isOnline e" "storedAudioFor e r = None \<or> \<not> storedPlaybackOk e" "\<not> cacheHas ?k (audioCache s)"
    by (cases "storedAudioFor e r") auto
  then show ?thesis
  proof cases
    case offline
    then have "retryCount (performSpeak e r s) = retryCount s" "timers (performSpeak e r s) = timers s"
      by (simp_all add: performSpeak_offline split: option.splits)
    then have "?P []" by simp
    with offline \<open>retryCount (performSpeak e r s) = retryCount s\<close> cool show ?thesis
      by (simp only: if_True not_False_eq_True) blast
  next
    case stored
    have "performSpeak e r s = snd (playStoredAudio e a (safeStopAudio s))"
      using stored by (rule performSpeak_stored_played)
    then have rc: "retryCount (performSpeak e r s) = retryCount s"
      and "timers (performSpeak e r s) = timers s"
      by simp_all
    then have "?P []" by simp
    then have "\<exists>new. ?P new" ..
    with stored rc cool show ?thesis by simp
  next
    case hit
    obtain s1 where s1: "performSpeak e r s = cacheOrSynthesize e r s1"
        "audioCache s1 = audioCache s" "retryCount s1 = retryCount s" "timers s1 = timers s"
      using performSpeak_falls_through [OF hit(1,2)] by blast
    have rc: "retryCount (performSpeak e r s) = (if playbackOk e then retryCount s else Suc (retryCount s))"
      and "timers (performSpeak e r s) = timers s"
      using cacheOrSynthesize_hit [of r s1 e] hit(3) s1 by simp_all
    then have "?P []" by simp
    then have "\<exists>new. ?P new" ..
    with hit rc cool show ?thesis by auto
  next
    case miss
    obtain s1 where s1: "performSpeak e r s = cacheOrSynthesize e r s1"
        "audioCache s1 = audioCache s" "retryCount s1 = retryCount s" "timers s1 = timers s"
      using performSpeak_falls_through [OF miss(1,2)] by blast
    have ps: "performSpeak e r s = synthesize e r s1"
      using cacheOrSynthesize_miss [of r s1 e] miss(3) s1 by simp
    have rc: "retryCount (performSpeak e r s) =
        (case response e of
           HttpError code \<Rightarrow> Suc (retryCount s)
         | NetworkFailure \<Rightarrow> Suc (retryCount s)
         | Success content \<Rightarrow>
             if isMuted e then retryCount s
             else if content = None \<or> content = Some [] then Suc (retryCount s)
             else if playbackOk e then 0 else Suc (retryCount s))"
      unfolding ps synthesize_retryCount s1(3) ..
    have "?P (if response e = HttpError 429 then [(5000 + jitter e, RetryTimer (closureOf e) r)]
      else if response e = HttpError 401 \<and> 3 \<le> retryCount s then [(300000, CooldownTimer)]
      else [])"
      unfolding ps using synthesize_timers [of e r s1] synthesize_retryCount [of e r s1] s1(3,4)
      by auto
    then have "\<exists>new. ?P new" ..
    with miss rc cool show ?thesis by auto
  qed
qed

subsection \<open>Where the code departs from its stated intent\<close>

text \<open>
  Claim C4: after four requests in a row have failed with status 401 the counter is 4 and the
  cooldown timer of 5 minutes is pending; a fifth request made then is sent to the speech
  backend all the same, while that timer is still pending.
\<close>

theorem synthesis_not_paused_after_auth_failures:
  "retryCount (run opsAuthFailures initState) = 4 \<and>
   timers (run opsAuthFailures initState) = [(300000, CooldownTimer)] \<and>
   networkInputs (events (run opsAuthFailures initState)) = [''one'', ''two'', ''three'', ''four''] \<and>
   networkInputs (events (run (opsAuthFailures @ [(envAuthFailure, SpeakText ''five'' JUndefined JNull)])
      initState)) = [''one'', ''two'', ''three'', ''four'', ''five''] \<and>
   (300000, CooldownTimer) \<in> set (timers (run (opsAuthFailures @
      [(envAuthFailure, SpeakText ''five'' JUndefined JNull)]) initState))"
  by (simp add: opsAuthFailures_def envAuthFailure_def envOnline_def initState_def step_def
        speakText_def processQueue_def fireTimer_def performSpeak_def safeStopAudio_def
        storedAudioFor_def cacheOrSynthesize_def synthesize_def catchError_def cacheKey_def
        baseLanguageOf_def serviceIdOf_def DRAVIDIAN_LANGUAGES_def INDO_ARYAN_LANGUAGES_def Let_def
        closureOf_def withClosure_def)

text \<open>
  Claim C5: the counter is meant to count the authentication failures in a row, as the
  comment at its test says. The code raises it on every error: a request that fails without
  a response, one without audio content and one with status 429 each add one, so that a
  single failure with status 401 after them finds the counter above 3 and sets the cooldown
  timer.
\<close>

theorem retryCount_raised_by_other_failures:
  "response envNetworkFailure = NetworkFailure \<and>
   retryCount (performSpeak envNetworkFailure requestHello initState) = Suc (retryCount initState) \<and>
   response envNoAudioContent = Success None \<and>
   retryCount (performSpeak envNoAudioContent requestHello initState) = Suc (retryCount initState) \<and>
   response envRateLimited = HttpError 429 \<and>
   retryCount (performSpeak envRateLimited requestHello initState) = Suc (retryCount initState) \<and>
   retryCount (run (take 6 opsMixedFailures) initState) = 3 \<and>
   retryCount (run opsMixedFailures initState) = 4 \<and>
   timers (run opsMixedFailures initState) =
     [(5250, RetryTimer (True, False) \<lparr>text' = ''three'', languageCode = ''en'', route = None\<rparr>),
      (300000, CooldownTimer), (500, DrainTimer (True, False))]"
  by (simp add: opsMixedFailures_def envNetworkFailure_def envNoAudioContent_def envRateLimited_def
        envAuthFailure_def envOnline_def requestHello_def initState_def run_defs)

text \<open>
  Claim C9: a request queued while unmuted and processed after the user has muted is played
  from the cache; offline, the bundled asset is played under mute as well. Only the path
  through the speech backend looks at \<^verbatim>\<open>isMuted\<close> before it plays, and what it sees is the
  value of its closure: a request that goes through the backend after the user has muted is
  played too.
\<close>

theorem muted_playback_from_cache_and_asset:
  "isMuted envMuted \<and>
   events (run opsMutedCacheHit initState) =
     [NetworkCall ''en'' ''Hello'' ''ai4bharat/indic-tts-indo-aryan--gpu-t4'',
      CreateAsync ''data:audio/wav;base64,UklGRg'' (Some 0),
      StopAsync 0, UnloadAsync 0,
      CreateAsync ''data:audio/wav;base64,UklGRg'' (Some 1)] \<and>
   playing (run opsMutedCacheHit initState) = [1] \<and>
   isMuted envMutedOffline \<and>
   playing (performSpeak envMutedOffline requestHome initState) = [0] \<and>
   playing (performSpeak envMuted requestHello initState) = [] \<and>
   playing (run opsMutedFresh initState) = [1]"
  by (simp add: opsMutedCacheHit_def opsMutedFresh_def envMuted_def envMutedOffline_def
        envOffline_def envOnline_def requestHome_def requestHello_def exampleStorage_def
        initState_def run_defs)

text \<open>
  Claim C10: two requests are made while online, the second one waiting in the queue;
  connectivity is lost, and the drain timer set while online fires. Its callback runs the
  \<^verbatim>\<open>performSpeak\<close> of the render that set it, where \<^verbatim>\<open>isOnline\<close> is still true: the sound
  that was playing is stopped, the cache is looked up, and on a miss the request is sent to
  the backend and the failure counted; on a hit the cached audio is played.
\<close>

theorem request_processed_offline_by_online_closure:
  "\<not> isOnline envOfflineNow \<and>
   events (run opsWentOffline initState) =
     [NetworkCall ''en'' ''one'' ''ai4bharat/indic-tts-indo-aryan--gpu-t4'',
      CreateAsync ''data:audio/wav;base64,UklGRg'' (Some 0),
      StopAsync 0, UnloadAsync 0,
      NetworkCall ''en'' ''two'' ''ai4bharat/indic-tts-indo-aryan--gpu-t4''] \<and>
   retryCount (run opsWentOffline initState) = 1 \<and>
   events (run opsWentOfflineHit initState) =
     [NetworkCall ''en'' ''one'' ''ai4bharat/indic-tts-indo-aryan--gpu-t4'',
      CreateAsync ''data:audio/wav;base64,UklGRg'' (Some 0),
      StopAsync 0, UnloadAsync 0,
      CreateAsync ''data:audio/wav;base64,UklGRg'' (Some 1)] \<and>
   playing (run opsWentOfflineHit initState) = [1]"
  by (simp add: opsWentOffline_def opsWentOfflineHit_def envOfflineNow_def envOffline_def
        envOnline_def initState_def run_defs)

end
